theory Spec2Isabelle
  imports Main "HOL-Library.Char_ord" "HOL-Library.List_Lexorder" "HOL-Library.Product_Lexorder"
    "HOL-Library.Sublist" "HOL-Library.AList"
begin

section \<open>The filesystem that backupy scans\<close>

text \<open>
  backupy.py reads the filesystem through \<open>Path.is_dir\<close>, \<open>Path.is_file\<close>,
  \<open>os.path.getsize\<close> and \<open>Path.iterdir\<close>. The model gives it a tree of entries: a file
  with its name and its size in bytes (a Python int), a directory with its name and its listing, in the
  order \<open>iterdir\<close> returns it. Every entry is a file or a directory, so \<open>is_file\<close> is
  the negation of \<open>is_dir\<close>. A path is the list of its parts.
\<close>

type_synonym path = "string list"

datatype fsentry = File string int | Dir string "fsentry list"

fun ename :: "fsentry \<Rightarrow> string" where
  "ename (File nm sz) = nm"
| "ename (Dir nm es) = nm"

fun entry_is_dir :: "fsentry \<Rightarrow> bool" where
  "entry_is_dir (File nm sz) = False"
| "entry_is_dir (Dir nm es) = True"

fun getsize :: "fsentry \<Rightarrow> int" where
  "getsize (File nm sz) = sz"
| "getsize (Dir nm es) = 0"

section \<open>BackupPath\<close>

text \<open>
  A \<open>BackupPath\<close> object is mutable and holds a reference to its parent object, which its
  constructor mutates. The model keeps all objects in a store, a list in allocation order;
  a reference is an index into it. The field \<open>is_dir\<close> keeps the answer of the filesystem
  to \<open>self.path.is_dir()\<close>, which the source asks again each time it needs it.
\<close>

record BackupPath =
  path :: path
  parent :: "nat option"
  is_last :: bool
  is_visible :: bool
  size_b :: int
  n_files :: nat
  depth :: nat
  backup :: bool
  is_dir :: bool

type_synonym store = "BackupPath list"

text \<open>
  The loop at the end of \<open>BackupPath.__init__\<close>:
  \<^verbatim>\<open>
        prnt = self.parent
        child = self
        while prnt is not None:
            prnt.size += child.size
            prnt.n_files += 1 if child.path.is_file() else 0
            prnt.backup |= self.backup
            prnt = prnt.parent
  \<close>
  It follows parent references until it meets \<open>None\<close>; not returning is the value \<open>None\<close>
  of the model.
\<close>

partial_function (option) update_parents :: "BackupPath \<Rightarrow> nat option \<Rightarrow> store \<Rightarrow> store option" where
  "update_parents self prnt st =
     (case prnt of
        None \<Rightarrow> Some st
      | Some p \<Rightarrow>
          update_parents self (parent (st ! p))
            (st[p := (st ! p)\<lparr>size_b := size_b (st ! p) + size_b self,
                              n_files := n_files (st ! p) + (if is_dir self then 0 else 1),
                              backup := (backup (st ! p) \<or> backup self)\<rparr>]))"

text \<open>
  \<open>BackupPath.make_namefilter(include, exclude)\<close> returns the closure \<open>func\<close>:
  \<^verbatim>\<open>
        def func(bp):
            result = True
            if bp.path in include:
                result = True
            elif bp.path in exclude:
                result = False
            elif bp.parent:
                result = func(bp.parent)
            return result
  \<close>
\<close>

partial_function (option) func :: "path list \<Rightarrow> path list \<Rightarrow> store \<Rightarrow> BackupPath \<Rightarrow> bool option" where
  "func include exclude st bp =
     (if path bp \<in> set include then Some True
      else if path bp \<in> set exclude then Some False
      else (case parent bp of
              Some p \<Rightarrow> func include exclude st (st ! p)
            | None \<Rightarrow> Some True))"

declare update_parents.simps [code]
declare func.simps [code]

definition make_namefilter :: "path list \<Rightarrow> path list \<Rightarrow> store \<Rightarrow> BackupPath \<Rightarrow> bool option" where
  "make_namefilter include exclude = func include exclude"

text \<open>
  \<open>BackupPath.__init__(path, parent_path, is_last, namefilter, sizefilter)\<close>. The new
  object gets the next free index of the store. \<open>entry\<close> is what the filesystem holds at
  \<open>path\<close>.
\<close>

definition init :: "(store \<Rightarrow> BackupPath \<Rightarrow> bool option) \<Rightarrow> (BackupPath \<Rightarrow> bool) \<Rightarrow>
    path \<Rightarrow> fsentry \<Rightarrow> nat option \<Rightarrow> bool \<Rightarrow> store \<Rightarrow> store option" where
  "init namefilter sizefilter pth entry parent_path il st =
     (let self0 = \<lparr>path = pth, parent = parent_path, is_last = il, is_visible = True,
                   size_b = (if entry_is_dir entry then 0 else getsize entry),
                   n_files = (if entry_is_dir entry then 0 else 1),
                   depth = (case parent_path of Some p \<Rightarrow> depth (st ! p) + 1 | None \<Rightarrow> 0),
                   backup = False,
                   is_dir = entry_is_dir entry\<rparr>
      in case namefilter st self0 of
           None \<Rightarrow> None
         | Some nf \<Rightarrow>
             (let self = self0\<lparr>backup := (nf \<and> sizefilter self0)\<rparr>
              in update_parents self (parent self) (st @ [self])))"

section \<open>BackupPath.make_tree\<close>

text \<open>
  The sort key of the listing is \<open>(s.is_file() if dir_first else s.is_dir(), str(s).lower())\<close>.
  Siblings share the text of their directory, so the second component orders them by their
  lower-cased names; \<open>lower\<close> is modelled on ASCII letters.
\<close>

definition lower_char :: "char \<Rightarrow> char" where
  "lower_char c = (if CHR ''A'' \<le> c \<and> c \<le> CHR ''Z'' then char_of (of_char c + (32::nat)) else c)"

definition sort_key_fs :: "bool \<Rightarrow> fsentry \<Rightarrow> bool \<times> string" where
  "sort_key_fs dir_first s =
     (if dir_first then \<not> entry_is_dir s else entry_is_dir s, map lower_char (ename s))"

datatype error = NotADirectoryError | IOError_no_config | StopIteration | ValueError
  | KeyError | ZeroDivisionError

record tree_args =
  ta_dir_first :: bool
  ta_include :: "path list"
  ta_exclude :: "path list"
  ta_filemax :: int

definition sizefilter_of :: "int \<Rightarrow> BackupPath \<Rightarrow> bool" where
  "sizefilter_of fmax = (if fmax > 0 then (\<lambda>s. size_b s < fmax) else (\<lambda>s. True))"

text \<open>
  \<open>make_tree\<close> is a generator; the model returns the store after the generator is
  exhausted, the yielded objects being the ones appended to the store, in this order.
  \<open>dir\<close> is the path of the directory that holds the entry, so that \<open>root\<close> of the source is
  \<open>dir @ [ename e]\<close>. On a file, \<open>root.iterdir()\<close> raises after the object was yielded.
\<close>

function make_tree :: "tree_args \<Rightarrow> path \<Rightarrow> fsentry \<Rightarrow> nat option \<Rightarrow> bool \<Rightarrow> store \<Rightarrow> (error + store) option"
  and make_children :: "tree_args \<Rightarrow> path \<Rightarrow> nat \<Rightarrow> nat \<Rightarrow> nat \<Rightarrow> fsentry list \<Rightarrow> store \<Rightarrow> (error + store) option"
where
  "make_tree a dir (File nm sz) prnt il st =
     (case init (make_namefilter (ta_include a) (ta_exclude a)) (sizefilter_of (ta_filemax a))
             (dir @ [nm]) (File nm sz) prnt il st of
        None \<Rightarrow> None
      | Some st' \<Rightarrow> Some (Inl NotADirectoryError))"
| "make_tree a dir (Dir nm es) prnt il st =
     (case init (make_namefilter (ta_include a) (ta_exclude a)) (sizefilter_of (ta_filemax a))
             (dir @ [nm]) (Dir nm es) prnt il st of
        None \<Rightarrow> None
      | Some st' \<Rightarrow>
          make_children a (dir @ [nm]) (length st) 1 (length es)
            (sort_key (sort_key_fs (ta_dir_first a)) es) st')"
| "make_children a root backup_root count n [] st = Some (Inr st)"
| "make_children a root backup_root count n (e # es) st =
     (if entry_is_dir e then
        (case make_tree a root e (Some backup_root) (count = n) st of
           None \<Rightarrow> None
         | Some (Inl err) \<Rightarrow> Some (Inl err)
         | Some (Inr st') \<Rightarrow> make_children a root backup_root (count + 1) n es st')
      else
        (case init (make_namefilter (ta_include a) (ta_exclude a)) (sizefilter_of (ta_filemax a))
                (root @ [ename e]) e (Some backup_root) (count = n) st of
           None \<Rightarrow> None
         | Some st' \<Rightarrow> make_children a root backup_root (count + 1) n es st'))"
  by pat_completeness auto

text \<open>The number of objects that \<open>make_tree\<close> creates for an entry.\<close>

fun n_nodes :: "fsentry \<Rightarrow> nat" where
  "n_nodes (File nm sz) = 1"
| "n_nodes (Dir nm es) = 1 + sum_list (map n_nodes es)"

lemma sum_list_insort_key: "sum_list (map f (insort_key k x xs)) = f x + sum_list (map f xs)"
  for f :: "'a \<Rightarrow> 'b::comm_monoid_add"
  by (induction xs) (auto simp: add.left_commute)

lemma sum_list_sort_key: "sum_list (map f (sort_key k xs)) = sum_list (map f xs)"
  for f :: "'a \<Rightarrow> 'b::comm_monoid_add"
  by (induction xs) (auto simp: sum_list_insort_key)

lemma n_nodes_pos: "0 < n_nodes e"
  by (cases e) auto

termination make_tree
  by (relation "measure (\<lambda>x. case x of
         Inl (a, dir, e, prnt, il, st) \<Rightarrow> 2 * n_nodes e
       | Inr (a, root, backup_root, count, n, es, st) \<Rightarrow> 2 * sum_list (map n_nodes es) + 1)")
     (auto simp: sum_list_sort_key n_nodes_pos)

section \<open>BackupPathStructure\<close>

text \<open>
  The fields \<open>include\<close>, \<open>exclude\<close> and \<open>show\<close> of the source are \<open>include_l\<close>,
  \<open>exclude_l\<close> and \<open>show_min\<close> here. \<open>backuppaths\<close> holds the objects in the order the
  generator yields them, which is the order of the store. \<open>show\<close>, \<open>filemax\<close> and
  \<open>max_depth\<close> are integers here (the command line passes floats for the first two).
  \<open>size_highlight\<close>, the quantile that numpy takes of \<open>sizedist\<close> for the colour of a
  name, is floating point and is not kept, nor is what numpy does with an empty
  \<open>sizedist\<close>; the \<open>tree\<close> generator itself is not kept either.
\<close>

record BackupPathStructure =
  root :: path
  dir_first :: bool
  include_l :: "path list"
  exclude_l :: "path list"
  show_min :: int
  filemax :: int
  backuppaths :: store
  sizedist :: "int list"
  max_depth_display :: int
  max_depth_is :: nat
  size_total :: int

definition max_display :: nat where
  "max_display = 1000"

text \<open>
  \<open>BackupPathStructure.__init__(root, include, exclude, show, filemax, max_depth, dir_first)\<close>.
  The loop over the generator reads \<open>depth\<close>, \<open>path\<close> and, of a file, \<open>size\<close> of each
  object when it is yielded; none of them changes later, so they are read from the final
  store.
\<close>

definition new_structure :: "path \<Rightarrow> fsentry \<Rightarrow> path list \<Rightarrow> path list \<Rightarrow> int \<Rightarrow> int \<Rightarrow> int \<Rightarrow> bool
    \<Rightarrow> (error + BackupPathStructure) option" where
  "new_structure dir e inc exc shw fmax max_depth dfirst =
     (case make_tree \<lparr>ta_dir_first = dfirst, ta_include = inc, ta_exclude = exc, ta_filemax = fmax\<rparr>
             dir e None False [] of
        None \<Rightarrow> None
      | Some (Inl err) \<Rightarrow> Some (Inl err)
      | Some (Inr st) \<Rightarrow>
          (let sd = rev (sort (map size_b (filter (\<lambda>bp. \<not> is_dir bp) st)))
           in Some (Inr \<lparr>root = dir @ [ename e], dir_first = dfirst, include_l = inc,
                         exclude_l = exc, show_min = shw, filemax = fmax, backuppaths = st,
                         sizedist = sd, max_depth_display = max_depth,
                         max_depth_is = fold (\<lambda>bp m. max m (depth bp)) st 0,
                         size_total = sum_list sd\<rparr>)))"

subsection \<open>scan\<close>

text \<open>
  \<open>scan\<close> returns the pretty names, the paths, the printed sizes, the shares of the total
  and the backup flags of the objects it lists (with \<open>display\<close>, the names joined to one
  text). The model returns, for each listed object, its path, its size and its flag, from
  which the rest is printed. The share is \<open>bp.size / self.size_total\<close>, which raises on a
  total of zero. \<open>sizeannotate\<close> and \<open>ansi_highlight\<close> change the text of the names only.
  The structure is passed through the loop and returned, as the state the call leaves.
  \<open>explicit\<close>, \<open>skipped\<close> and \<open>listed\<close> are the tests of the loop:
  \<^verbatim>\<open>
            explicit = bp.path in self.include + self.exclude
            if not explicit and (
                bp.depth > self.max_depth_display > -1 or
                    (display and len(self.sizedist) > self.max_display
                     and bp.size <= self.sizedist[self.max_display])
                ):
                continue
            ...
            if bp.path == self.root or bp.size > self.show or explicit:
  \<close>
\<close>

record scan_row =
  sr_path :: path
  sr_size :: int
  sr_backup :: bool

definition explicit :: "BackupPathStructure \<Rightarrow> BackupPath \<Rightarrow> bool" where
  "explicit s bp = (path bp \<in> set (include_l s @ exclude_l s))"

definition skipped :: "BackupPathStructure \<Rightarrow> bool \<Rightarrow> BackupPath \<Rightarrow> bool" where
  "skipped s display bp =
     (\<not> explicit s bp \<and>
      ((int (depth bp) > max_depth_display s \<and> max_depth_display s > -1) \<or>
       (display \<and> length (sizedist s) > max_display \<and> size_b bp \<le> sizedist s ! max_display)))"

definition listed :: "BackupPathStructure \<Rightarrow> BackupPath \<Rightarrow> bool" where
  "listed s bp = (path bp = root s \<or> size_b bp > show_min s \<or> explicit s bp)"

fun scan_loop :: "bool \<Rightarrow> store \<Rightarrow> scan_row list \<Rightarrow> BackupPathStructure
    \<Rightarrow> (error + scan_row list) \<times> BackupPathStructure" where
  "scan_loop display [] acc s = (Inr acc, s)"
| "scan_loop display (bp # bps) acc s =
     (if skipped s display bp then scan_loop display bps acc s
      else if listed s bp then
        (if size_total s = 0 then (Inl ZeroDivisionError, s)
         else scan_loop display bps
                (acc @ [\<lparr>sr_path = path bp, sr_size = size_b bp, sr_backup = backup bp\<rparr>]) s)
      else scan_loop display bps acc s)"

definition scan :: "int \<Rightarrow> bool \<Rightarrow> bool \<Rightarrow> BackupPathStructure
    \<Rightarrow> (error + scan_row list) \<times> BackupPathStructure" where
  "scan sizeannotate display ansi_highlight s = scan_loop display (backuppaths s) [] s"

subsection \<open>The configuration file\<close>

text \<open>
  The file \<open>root/.backupy.cfg\<close> is a header line and one line per listed object. Of a
  line, \<open>_read_backup_conf\<close> uses the flag, \<open>bool(int(b))\<close>, and the path,
  \<open>Path(n2.strip())\<close>; \<open>Row\<close> holds these two as read. \<open>Header\<close> is the header line,
  whose flag column is no number. The csv encoding of a line is not modelled: a line is
  read as it was written.
\<close>

datatype line = Header | Row bool path

text \<open>
  On an error inside \<open>scan\<close> the file is already open for writing, and is left empty.
  The result is the error, if any, and the content of the file after the call.
\<close>

definition make_backup_conf :: "BackupPathStructure \<Rightarrow> error option \<times> line list" where
  "make_backup_conf s =
     (case fst (scan 100000000 False False s) of
        Inl err \<Rightarrow> (Some err, [])
      | Inr rows \<Rightarrow> (None, Header # map (\<lambda>r. Row (sr_backup r) (sr_path r)) rows))"

text \<open>
  The nested dict that \<open>_read_backup_conf\<close> returns: at each level the key \<open>"."\<close> with
  the flag of the level, and one key per name with the dict of the level below. The
  key \<open>"."\<close> is a field of its own here (no part of a path is \<open>"."\<close>); it is absent from
  the top level until a line for the root is read.
\<close>

datatype conf = Conf (self_flag: "bool option") (kids: "(string \<times> conf) list")

definition relative_to :: "path \<Rightarrow> path \<Rightarrow> error + path" where
  "relative_to p rt = (if prefix rt p then Inr (drop (length rt) p) else Inl ValueError)"

text \<open>
  \<^verbatim>\<open>
                res = result
                for folder in parts:
                    if folder not in res.keys():
                        res[folder] = {".": backup}
                    res = res[folder]
  \<close>
\<close>

fun add_parts :: "bool \<Rightarrow> string list \<Rightarrow> conf \<Rightarrow> conf" where
  "add_parts b [] res = res"
| "add_parts b (folder # parts) res =
     (case map_of (kids res) folder of
        None \<Rightarrow>
          Conf (self_flag res) (AList.update folder (add_parts b parts (Conf (Some b) [])) (kids res))
      | Some sub \<Rightarrow>
          Conf (self_flag res) (AList.update folder (add_parts b parts sub) (kids res)))"

fun read_rows :: "path \<Rightarrow> line list \<Rightarrow> conf \<Rightarrow> error + conf" where
  "read_rows rt [] result = Inr result"
| "read_rows rt (Header # rd) result = Inl ValueError"
| "read_rows rt (Row b p # rd) result =
     (case relative_to p rt of
        Inl err \<Rightarrow> Inl err
      | Inr parts \<Rightarrow>
          read_rows rt rd
            (add_parts b parts (if length parts = 0 then Conf (Some b) (kids result) else result)))"

text \<open>
  \<open>_read_backup_conf(root)\<close>; \<open>file\<close> is the content of \<open>root/.backupy.cfg\<close>, \<open>None\<close>
  when \<open>os.path.exists\<close> says no. \<open>rd.__next__()\<close> drops the first line.
\<close>

definition read_backup_conf :: "path \<Rightarrow> line list option \<Rightarrow> error + conf" where
  "read_backup_conf rt file =
     (case file of
        None \<Rightarrow> Inl IOError_no_config
      | Some [] \<Rightarrow> Inl StopIteration
      | Some (h # rd) \<Rightarrow> read_rows rt rd (Conf None []))"

subsection \<open>from_backup_conf\<close>

text \<open>
  \<^verbatim>\<open>
            bc = backup_conf
            backup = backup_conf["."]
            for folder in parts:
                if folder in bc.keys():
                    bc = bc[folder]
                backup = bc["."]
            bp.backup = backup
  \<close>
\<close>

fun walk_parts :: "string list \<Rightarrow> conf \<Rightarrow> bool \<Rightarrow> error + bool" where
  "walk_parts [] bc b = Inr b"
| "walk_parts (folder # parts) bc b =
     (let bc' = (case map_of (kids bc) folder of Some sub \<Rightarrow> sub | None \<Rightarrow> bc)
      in case self_flag bc' of
           None \<Rightarrow> Inl KeyError
         | Some b' \<Rightarrow> walk_parts parts bc' b')"

definition decision_for :: "conf \<Rightarrow> string list \<Rightarrow> error + bool" where
  "decision_for backup_conf parts =
     (case self_flag backup_conf of
        None \<Rightarrow> Inl KeyError
      | Some b \<Rightarrow> walk_parts parts backup_conf b)"

fun reconcile :: "path \<Rightarrow> conf \<Rightarrow> store \<Rightarrow> error + store" where
  "reconcile rt backup_conf [] = Inr []"
| "reconcile rt backup_conf (bp # bps) =
     (case relative_to (path bp) rt of
        Inl err \<Rightarrow> Inl err
      | Inr parts \<Rightarrow>
          (case decision_for backup_conf parts of
             Inl err \<Rightarrow> Inl err
           | Inr b \<Rightarrow>
               (case reconcile rt backup_conf bps of
                  Inl err \<Rightarrow> Inl err
                | Inr bps' \<Rightarrow> Inr (bp\<lparr>backup := b\<rparr> # bps'))))"

text \<open>
  \<open>from_backup_conf(root)\<close>: \<open>dir\<close> and \<open>e\<close> are the filesystem at the time of the call,
  \<open>file\<close> the configuration file.
\<close>

definition from_backup_conf :: "path \<Rightarrow> fsentry \<Rightarrow> line list option
    \<Rightarrow> (error + BackupPathStructure) option" where
  "from_backup_conf dir e file =
     (case read_backup_conf (dir @ [ename e]) file of
        Inl err \<Rightarrow> Some (Inl err)
      | Inr backup_conf \<Rightarrow>
          (case new_structure dir e [] [] 0 (-1) (-1) True of
             None \<Rightarrow> None
           | Some (Inl err) \<Rightarrow> Some (Inl err)
           | Some (Inr inst) \<Rightarrow>
               (case reconcile (dir @ [ename e]) backup_conf (backuppaths inst) of
                  Inl err \<Rightarrow> Some (Inl err)
                | Inr st \<Rightarrow> Some (Inr (inst\<lparr>backuppaths := st\<rparr>)))))"

text \<open>
  \<open>cmd_zip(root)\<close> up to the construction of the \<open>Backup\<close> object: it calls
  \<open>from_backup_conf\<close> first and then tests for the file itself.
\<close>

datatype zip_outcome = Aborted_no_config | Proceeds BackupPathStructure

definition cmd_zip :: "path \<Rightarrow> fsentry \<Rightarrow> line list option \<Rightarrow> (error + zip_outcome) option" where
  "cmd_zip dir e file =
     (case from_backup_conf dir e file of
        None \<Rightarrow> None
      | Some (Inl err) \<Rightarrow> Some (Inl err)
      | Some (Inr paths) \<Rightarrow>
          (if file = None then Some (Inr Aborted_no_config) else Some (Inr (Proceeds paths))))"

section \<open>Notions of the statements\<close>

text \<open>
  \<open>chain st prnt anc\<close>: following the parent references of the store from \<open>prnt\<close> visits
  the objects \<open>anc\<close>, nearest first, and ends at \<open>None\<close>.
\<close>

fun chain :: "store \<Rightarrow> nat option \<Rightarrow> nat list \<Rightarrow> bool" where
  "chain st prnt [] = (prnt = None)"
| "chain st prnt (p # anc) = (prnt = Some p \<and> p < length st \<and> chain st (parent (st ! p)) anc)"

text \<open>
  The closest rule of a list of paths, nearest first: the first path that is listed in
  \<open>include\<close> or in \<open>exclude\<close> decides, and without any the answer is include.
\<close>

fun closest_rule :: "path list \<Rightarrow> path list \<Rightarrow> path list \<Rightarrow> bool" where
  "closest_rule inc exc [] = True"
| "closest_rule inc exc (p # ps) =
     (if p \<in> set inc then True else if p \<in> set exc then False else closest_rule inc exc ps)"

text \<open>The bytes and the number of the files of a subtree.\<close>

fun total_size :: "fsentry \<Rightarrow> int" where
  "total_size (File nm sz) = sz"
| "total_size (Dir nm es) = sum_list (map total_size es)"

fun count_files :: "fsentry \<Rightarrow> nat" where
  "count_files (File nm sz) = 1"
| "count_files (Dir nm es) = sum_list (map count_files es)"

text \<open>
  The decision of an entry at path \<open>p\<close> below the directories \<open>aps\<close> (nearest first): a
  file passes the name filter and the size filter, a directory passes the name filter or
  holds an entry that is decided.
\<close>

fun decided :: "tree_args \<Rightarrow> path list \<Rightarrow> path \<Rightarrow> fsentry \<Rightarrow> bool" where
  "decided a aps p (File nm sz) =
     (closest_rule (ta_include a) (ta_exclude a) (p # aps) \<and> (0 < ta_filemax a \<longrightarrow> sz < ta_filemax a))"
| "decided a aps p (Dir nm es) =
     (closest_rule (ta_include a) (ta_exclude a) (p # aps) \<or>
      (\<exists>e \<in> set es. decided a (p # aps) (p @ [ename e]) e))"

text \<open>
  The entries of a tree in the order \<open>make_tree\<close> visits them, each with its place: the
  paths of the directories above it, its own path, the index of its parent, its depth and
  whether it is the last of its listing. \<open>i\<close> is the index of the first object.
\<close>

record place =
  pl_aps :: "path list"
  pl_path :: path
  pl_parent :: "nat option"
  pl_depth :: nat
  pl_is_last :: bool
  pl_entry :: fsentry

function walk :: "bool \<Rightarrow> path list \<Rightarrow> path \<Rightarrow> nat option \<Rightarrow> nat \<Rightarrow> bool \<Rightarrow> nat \<Rightarrow> fsentry \<Rightarrow> place list"
  and walk_children :: "bool \<Rightarrow> path list \<Rightarrow> path \<Rightarrow> nat \<Rightarrow> nat \<Rightarrow> nat \<Rightarrow> nat \<Rightarrow> nat \<Rightarrow> fsentry list \<Rightarrow> place list"
where
  "walk df aps p prnt d il i (File nm sz) =
     [\<lparr>pl_aps = aps, pl_path = p, pl_parent = prnt, pl_depth = d, pl_is_last = il,
       pl_entry = File nm sz\<rparr>]"
| "walk df aps p prnt d il i (Dir nm es) =
     \<lparr>pl_aps = aps, pl_path = p, pl_parent = prnt, pl_depth = d, pl_is_last = il,
      pl_entry = Dir nm es\<rparr>
     # walk_children df (p # aps) p i (d + 1) 1 (length es) (i + 1) (sort_key (sort_key_fs df) es)"
| "walk_children df aps p br d count n i [] = []"
| "walk_children df aps p br d count n i (e # es) =
     walk df aps (p @ [ename e]) (Some br) d (count = n) i e
     @ walk_children df aps p br d (count + 1) n (i + n_nodes e) es"
  by pat_completeness auto

termination walk
  by (relation "measure (\<lambda>x. case x of
         Inl (df, aps, p, prnt, d, il, i, e) \<Rightarrow> 2 * n_nodes e
       | Inr (df, aps, p, br, d, count, n, i, es) \<Rightarrow> 2 * sum_list (map n_nodes es) + 1)")
     (auto simp: sum_list_sort_key n_nodes_pos)

text \<open>The places of the tree that \<open>make_tree\<close> is called on from outside.\<close>

definition places :: "bool \<Rightarrow> path \<Rightarrow> fsentry \<Rightarrow> place list" where
  "places df dir e = walk df [] (dir @ [ename e]) None 0 False 0 e"

definition final_node :: "tree_args \<Rightarrow> place \<Rightarrow> BackupPath" where
  "final_node a pl =
     \<lparr>path = pl_path pl, parent = pl_parent pl, is_last = pl_is_last pl, is_visible = True,
      size_b = total_size (pl_entry pl), n_files = count_files (pl_entry pl),
      depth = pl_depth pl, backup = decided a (pl_aps pl) (pl_path pl) (pl_entry pl),
      is_dir = entry_is_dir (pl_entry pl)\<rparr>"

text \<open>
  What the loop of \<open>__init__\<close> does to the objects \<open>anc\<close> of a store: it adds a size and a
  number of files and ors a flag.
\<close>

definition bump :: "int \<Rightarrow> nat \<Rightarrow> bool \<Rightarrow> nat list \<Rightarrow> store \<Rightarrow> store" where
  "bump s n b anc st =
     map (\<lambda>(i, x). if i \<in> set anc
                    then x\<lparr>size_b := size_b x + s, n_files := n_files x + n, backup := (backup x \<or> b)\<rparr>
                    else x)
         (enumerate 0 st)"

text \<open>
  The flag that the nested dict holds for the level at \<open>parts\<close> below the root, if the level
  is there; the flag of the first line of a file whose path is \<open>p\<close> or lies below it; the
  flag of the last line whose path is \<open>p\<close>. \<open>flagged\<close>: every level below the top has a flag.
\<close>

fun level_flag :: "conf \<Rightarrow> string list \<Rightarrow> bool option" where
  "level_flag c [] = self_flag c"
| "level_flag c (f # fs) = (case map_of (kids c) f of None \<Rightarrow> None | Some sub \<Rightarrow> level_flag sub fs)"

fun first_flag :: "path \<Rightarrow> line list \<Rightarrow> bool option" where
  "first_flag p [] = None"
| "first_flag p (Header # rd) = first_flag p rd"
| "first_flag p (Row b q # rd) = (if prefix p q then Some b else first_flag p rd)"

fun last_flag :: "path \<Rightarrow> line list \<Rightarrow> bool option" where
  "last_flag p [] = None"
| "last_flag p (Header # rd) = last_flag p rd"
| "last_flag p (Row b q # rd) = (case last_flag p rd of Some b' \<Rightarrow> Some b' | None \<Rightarrow> if q = p then Some b else None)"

fun flagged :: "conf \<Rightarrow> bool" where
  "flagged (Conf s ks) = (\<forall>x \<in> set ks. self_flag (snd x) \<noteq> None \<and> flagged (snd x))"


abbreviation (input) pl_decided :: "tree_args \<Rightarrow> place \<Rightarrow> bool" where
  "pl_decided a pl \<equiv> decided a (pl_aps pl) (pl_path pl) (pl_entry pl)"





section \<open>Examples\<close>

definition fs_example :: fsentry where
  "fs_example = Dir ''proj'' [File ''notes.txt'' 10, Dir ''a'' [File ''big.bin'' 5000000, File ''small.txt'' 10], Dir ''B'' [], Dir ''c'' [Dir ''d'' [File ''x'' 7]]]"

definition args_example :: tree_args where
  "args_example = \<lparr>ta_dir_first = True, ta_include = [[''home'', ''proj'', ''c'', ''d'']], ta_exclude = [[''home'', ''proj'', ''c'']], ta_filemax = 1000000\<rparr>"

definition store_example :: store where
  "store_example =
     [\<lparr>path = [''r''], parent = None, is_last = False, is_visible = True, size_b = 0,
       n_files = 0, depth = 0, backup = True, is_dir = True\<rparr>,
      \<lparr>path = [''r'', ''a''], parent = Some 0, is_last = True, is_visible = True, size_b = 0,
       n_files = 0, depth = 1, backup = False, is_dir = True\<rparr>]"

definition node_example :: BackupPath where
  "node_example =
     \<lparr>path = [''r'', ''a'', ''f''], parent = Some 1, is_last = True, is_visible = True,
      size_b = 3, n_files = 1, depth = 2, backup = False, is_dir = False\<rparr>"


definition structure_small :: BackupPathStructure where
  "structure_small =
     \<lparr>root = [''h'', ''r''], dir_first = True, include_l = [], exclude_l = [], show_min = 1000000,
      filemax = 5,
      backuppaths =
        [\<lparr>path = [''h'', ''r''], parent = None, is_last = False, is_visible = True, size_b = 10,
          n_files = 1, depth = 0, backup = True, is_dir = True\<rparr>,
         \<lparr>path = [''h'', ''r'', ''f''], parent = Some 0, is_last = True, is_visible = True,
          size_b = 10, n_files = 1, depth = 1, backup = False, is_dir = False\<rparr>],
      sizedist = [10], max_depth_display = - 1, max_depth_is = 1, size_total = 10\<rparr>"

definition fs_drift :: fsentry where
  "fs_drift = Dir ''r'' [File ''b'' 2000000, Dir ''x'' [File ''b'' 10]]"



section \<open>The store after \<open>make_tree\<close>\<close>

lemma length_bump [simp]: "length (bump s n b anc st) = length st"
  by (simp add: bump_def)

lemma nth_bump: "i < length st \<Longrightarrow> bump s n b anc st ! i =
  (if i \<in> set anc then (st ! i)\<lparr>size_b := size_b (st ! i) + s, n_files := n_files (st ! i) + n, backup := (backup (st ! i) \<or> b)\<rparr> else st ! i)"
  by (simp add: bump_def nth_enumerate_eq)

lemma bump_append: "\<forall>i\<in>set anc. i < length st \<Longrightarrow> bump s n b anc (st @ xs) = bump s n b anc st @ xs"
  by (rule nth_equalityI) (auto simp: nth_bump nth_append)

lemma bump_bump: "bump s2 n2 b2 anc (bump s1 n1 b1 anc st) = bump (s1 + s2) (n1 + n2) (b1 \<or> b2) anc st"
  by (rule nth_equalityI) (auto simp: nth_bump)

lemma bump_zero [simp]: "bump 0 0 False anc st = st"
  by (rule nth_equalityI) (auto simp: nth_bump)

lemma bump_nil [simp]: "bump s n b [] st = st"
  by (rule nth_equalityI) (auto simp: nth_bump)

lemma bump_snoc: "\<forall>i\<in>set anc. i < length st \<Longrightarrow>
  bump s n b (length st # anc) (st @ [x]) = bump s n b anc st @ [x\<lparr>size_b := size_b x + s, n_files := n_files x + n, backup := (backup x \<or> b)\<rparr>]"
  by (rule nth_equalityI) (auto simp: nth_bump nth_append)

lemma chain_less: "chain st prnt anc \<Longrightarrow> \<forall>i\<in>set anc. i < length st"
  by (induction anc arbitrary: prnt) auto

lemma chain_bump_append: "chain st prnt anc \<Longrightarrow> chain (bump s n b anc0 st @ xs) prnt anc"
  by (induction anc arbitrary: prnt) (auto simp: nth_append nth_bump)

lemma chain_update: "chain st prnt anc \<Longrightarrow> q < length st \<Longrightarrow> parent x = parent (st ! q) \<Longrightarrow> chain (st[q := x]) prnt anc"
  by (induction anc arbitrary: prnt) (auto simp: nth_list_update)

lemma paths_bump_append: "\<forall>i\<in>set anc. i < length st \<Longrightarrow> map (\<lambda>i. path ((bump s n b anc0 st @ xs) ! i)) anc = map (\<lambda>i. path (st ! i)) anc"
  by (auto simp: nth_append nth_bump)

lemma func_closest: "chain st (parent bp) anc \<Longrightarrow>
  func inc exc st bp = Some (closest_rule inc exc (path bp # map (\<lambda>i. path (st ! i)) anc))"
proof (induction anc arbitrary: bp)
  case Nil
  then show ?case by (subst func.simps) simp
next
  case (Cons p anc)
  from Cons.prems have "parent bp = Some p" "chain st (parent (st ! p)) anc" by auto
  with Cons.IH [of "st ! p"] show ?case
    by (subst func.simps) simp
qed

lemma update_parents_bump: "chain st prnt anc \<Longrightarrow> distinct anc \<Longrightarrow>
  update_parents self prnt st = Some (bump (size_b self) (if is_dir self then 0 else 1) (backup self) anc st)"
proof (induction anc arbitrary: prnt st)
  case Nil
  then show ?case by (subst update_parents.simps) simp
next
  case (Cons p anc)
  let ?x = "(st ! p)\<lparr>size_b := size_b (st ! p) + size_b self,
                              n_files := n_files (st ! p) + (if is_dir self then 0 else 1),
                              backup := (backup (st ! p) \<or> backup self)\<rparr>"
  from Cons.prems have p: "prnt = Some p" "p < length st" "chain st (parent (st ! p)) anc" "p \<notin> set anc" "distinct anc"
    by auto
  have c: "chain (st[p := ?x]) (parent (st ! p)) anc"
    using p by (intro chain_update) auto
  have "bump (size_b self) (if is_dir self then 0 else 1) (backup self) anc (st[p := ?x])
      = bump (size_b self) (if is_dir self then 0 else 1) (backup self) (p # anc) st"
    using p by (intro nth_equalityI) (auto simp: nth_bump nth_list_update)
  with Cons.IH [OF c \<open>distinct anc\<close>] p show ?case
    by (subst update_parents.simps) simp
qed

lemma chain_append: "chain st prnt anc \<Longrightarrow> chain (st @ xs) prnt anc"
  using chain_bump_append [of st prnt anc 0 0 False "[]" xs] by simp

lemma update_parents_snoc:
  assumes "chain st prnt anc" "distinct anc"
  shows "update_parents x prnt (st @ [x]) =
    Some (bump (size_b x) (if is_dir x then 0 else 1) (backup x) anc st @ [x])"
proof -
  have l: "\<forall>i\<in>set anc. i < length st" using assms chain_less by blast
  show ?thesis
    using update_parents_bump [OF chain_append [OF assms(1)] assms(2), of x "[x]"] bump_append [OF l]
    by simp
qed

lemma init_Dir:
  assumes "chain st prnt anc" "distinct anc"
  shows "init (make_namefilter inc exc) (sizefilter_of fmax) p (Dir nm es) prnt il st =
    Some (bump 0 0 (closest_rule inc exc (p # map (\<lambda>i. path (st ! i)) anc)) anc st
      @ [\<lparr>path = p, parent = prnt, is_last = il, is_visible = True, size_b = 0, n_files = 0,
          depth = (case prnt of Some q \<Rightarrow> depth (st ! q) + 1 | None \<Rightarrow> 0),
          backup = closest_rule inc exc (p # map (\<lambda>i. path (st ! i)) anc), is_dir = True\<rparr>])"
proof -
  have l: "\<forall>i\<in>set anc. i < length st" using assms chain_less by blast
  show ?thesis
    using assms l
    by (simp add: init_def Let_def make_namefilter_def func_closest update_parents_snoc
        sizefilter_of_def del: closest_rule.simps)
qed

lemma init_File:
  assumes "chain st prnt anc" "distinct anc"
  shows "init (make_namefilter (ta_include a) (ta_exclude a)) (sizefilter_of (ta_filemax a)) p (File nm sz) prnt il st =
    Some (bump sz 1 (decided a (map (\<lambda>i. path (st ! i)) anc) p (File nm sz)) anc st
      @ [final_node a \<lparr>pl_aps = map (\<lambda>i. path (st ! i)) anc, pl_path = p, pl_parent = prnt,
            pl_depth = (case prnt of Some q \<Rightarrow> depth (st ! q) + 1 | None \<Rightarrow> 0),
            pl_is_last = il, pl_entry = File nm sz\<rparr>])"
proof -
  have l: "\<forall>i\<in>set anc. i < length st" using assms chain_less by blast
  show ?thesis
    using assms l
    by (simp add: init_def Let_def make_namefilter_def func_closest update_parents_snoc
        sizefilter_of_def final_node_def del: closest_rule.simps)
qed

lemma length_walk: "length (walk df aps p prnt d il i e) = n_nodes e"
  and length_walk_children: "length (walk_children df aps p br d count n i es) = sum_list (map n_nodes es)"
  by (induction df aps p prnt d il i e and df aps p br d count n i es rule: walk_walk_children.induct)
     (auto simp: sum_list_sort_key)

lemma depth_bump_append: "q < length st \<Longrightarrow> depth ((bump s n b anc st @ xs) ! q) = depth (st ! q)"
  by (simp add: nth_append nth_bump)

lemma path_bump_append: "q < length st \<Longrightarrow> path ((bump s n b anc st @ xs) ! q) = path (st ! q)"
  by (simp add: nth_append nth_bump)

lemma make_tree_walk:
  "entry_is_dir e \<Longrightarrow> chain st prnt anc \<Longrightarrow> distinct anc \<Longrightarrow>
     make_tree a dir e prnt il st =
       Some (Inr (bump (total_size e) (count_files e)
                    (decided a (map (\<lambda>i. path (st ! i)) anc) (dir @ [ename e]) e) anc st
          @ map (final_node a)
              (walk (ta_dir_first a) (map (\<lambda>i. path (st ! i)) anc) (dir @ [ename e]) prnt
                 (case prnt of Some q \<Rightarrow> depth (st ! q) + 1 | None \<Rightarrow> 0) il (length st) e)))"
  and make_children_walk:
  "chain st (Some br) anc \<Longrightarrow> distinct anc \<Longrightarrow>
     make_children a rt br count n es st =
       Some (Inr (bump (sum_list (map total_size es)) (sum_list (map count_files es))
                    (\<exists>e\<in>set es. decided a (map (\<lambda>i. path (st ! i)) anc) (rt @ [ename e]) e) anc st
          @ map (final_node a)
              (walk_children (ta_dir_first a) (map (\<lambda>i. path (st ! i)) anc) rt br
                 (depth (st ! br) + 1) count n (length st) es)))"
proof (induction a dir e prnt il st and a rt br count n es st arbitrary: anc and anc
    rule: make_tree_make_children.induct)
  case (1 a dir nm sz prnt il st)
  then show ?case by simp
next
  case (2 a dir nm es prnt il st)
  let ?p = "dir @ [nm]"
  let ?aps = "map (\<lambda>i. path (st ! i)) anc"
  let ?b0 = "closest_rule (ta_include a) (ta_exclude a) (?p # ?aps)"
  let ?d = "case prnt of Some q \<Rightarrow> depth (st ! q) + 1 | None \<Rightarrow> 0"
  let ?x = "\<lparr>path = ?p, parent = prnt, is_last = il, is_visible = True, size_b = 0, n_files = 0,
          depth = ?d, backup = ?b0, is_dir = True\<rparr>"
  let ?st' = "bump 0 0 ?b0 anc st @ [?x]"
  let ?ses = "sort_key (sort_key_fs (ta_dir_first a)) es"
  have l: "\<forall>i\<in>set anc. i < length st" using "2.prems" chain_less by blast
  have i: "init (make_namefilter (ta_include a) (ta_exclude a)) (sizefilter_of (ta_filemax a))
             ?p (Dir nm es) prnt il st = Some ?st'"
    using "2.prems" by (rule_tac init_Dir)
  have c: "chain ?st' (Some (length st)) (length st # anc)"
    using "2.prems" by (simp add: chain_bump_append nth_append)
  have d: "distinct (length st # anc)"
    using "2.prems" l by auto
  have ps: "map (\<lambda>i. path (?st' ! i)) (length st # anc) = ?p # ?aps"
    using l by (simp add: path_bump_append del: closest_rule.simps) (simp add: nth_append)
  have dp: "depth (?st' ! length st) + 1 = ?d + 1"
    by (simp add: nth_append)
  have len: "length ?st' = length st + 1" by simp
  note ih = "2.IH" [OF i c d, unfolded ps dp len]
  have "bump (sum_list (map total_size ?ses)) (sum_list (map count_files ?ses))
          (\<exists>e\<in>set ?ses. decided a (?p # ?aps) (?p @ [ename e]) e) (length st # anc) ?st'
        = bump (total_size (Dir nm es)) (count_files (Dir nm es)) (decided a ?aps ?p (Dir nm es)) anc st
          @ [final_node a \<lparr>pl_aps = ?aps, pl_path = ?p, pl_parent = prnt, pl_depth = ?d,
                pl_is_last = il, pl_entry = Dir nm es\<rparr>]"
    using l bump_snoc [of anc "bump 0 0 ?b0 anc st"]
    by (simp add: bump_bump sum_list_sort_key final_node_def del: closest_rule.simps)
  with ih i show ?case
    by (simp del: closest_rule.simps)
next
  case (3 a rt br count n st)
  then show ?case by simp
next
  case (4 a rt br count n e es st)
  let ?aps = "map (\<lambda>i. path (st ! i)) anc"
  let ?d = "depth (st ! br) + 1"
  let ?df = "ta_dir_first a"
  let ?B1 = "map (final_node a) (walk ?df ?aps (rt @ [ename e]) (Some br) ?d (count = n) (length st) e)"
  let ?st1 = "bump (total_size e) (count_files e) (decided a ?aps (rt @ [ename e]) e) anc st @ ?B1"
  have l: "\<forall>i\<in>set anc. i < length st" using "4.prems" chain_less by blast
  have br: "br < length st" using "4.prems" by (cases anc) auto
  have c1: "chain ?st1 (Some br) anc"
    using "4.prems" by (simp add: chain_bump_append)
  have ps: "map (\<lambda>i. path (?st1 ! i)) anc = ?aps"
    using l by (simp add: path_bump_append)
  have dp: "depth (?st1 ! br) = depth (st ! br)"
    using br by (simp add: depth_bump_append)
  have len: "length ?st1 = length st + n_nodes e"
    by (simp add: length_walk)
  have bb: "bump s2 n2 b2 anc ?st1 = bump (total_size e + s2) (count_files e + n2)
      (decided a ?aps (rt @ [ename e]) e \<or> b2) anc st @ ?B1" for s2 n2 b2
    using l by (simp add: bump_append bump_bump)
  show ?case
  proof (cases "entry_is_dir e")
    case True
    have m: "make_tree a rt e (Some br) (count = n) st = Some (Inr ?st1)"
      using "4.IH"(1) [OF True True "4.prems"] by simp
    note ih = "4.IH"(2) [OF True m refl c1 "4.prems"(2), unfolded ps dp len bb]
    show ?thesis using True m ih by simp
  next
    case False
    then obtain nm sz where e: "e = File nm sz" by (cases e) auto
    have m: "init (make_namefilter (ta_include a) (ta_exclude a)) (sizefilter_of (ta_filemax a))
                (rt @ [ename e]) e (Some br) (count = n) st = Some ?st1"
      using init_File [OF "4.prems", of a "rt @ [nm]" nm sz "count = n"] by (simp add: e)
    note ih = "4.IH"(3) [OF False m c1 "4.prems"(2), unfolded ps dp len bb]
    show ?thesis using False m ih by simp
  qed
qed


lemma make_tree_places:
  "entry_is_dir e \<Longrightarrow>
     make_tree a dir e None False [] = Some (Inr (map (final_node a) (places (ta_dir_first a) dir e)))"
  using make_tree_walk [of e "[]" None "[]" a dir False] by (simp add: places_def bump_def)

lemma places_example:
  "map (\<lambda>pl. (pl_path pl, entry_is_dir (pl_entry pl), total_size (pl_entry pl),
                    count_files (pl_entry pl))) (places True [''home''] fs_example) =
   [([''home'', ''proj''], True, 5000027, 4),
    ([''home'', ''proj'', ''a''], True, 5000010, 2),
    ([''home'', ''proj'', ''a'', ''big.bin''], False, 5000000, 1),
    ([''home'', ''proj'', ''a'', ''small.txt''], False, 10, 1),
    ([''home'', ''proj'', ''B''], True, 0, 0),
    ([''home'', ''proj'', ''c''], True, 7, 1),
    ([''home'', ''proj'', ''c'', ''d''], True, 7, 1),
    ([''home'', ''proj'', ''c'', ''d'', ''x''], False, 7, 1),
    ([''home'', ''proj'', ''notes.txt''], False, 10, 1)]"
  by code_simp

subsection \<open>\<open>scan\<close> writes nothing\<close>
lemma scan_loop_frame: "snd (scan_loop display bps acc s) = s"
  by (induction bps arbitrary: acc) auto

subsection \<open>The error of a missing configuration file\<close>
lemma read_rows_not_missing: "read_rows rt rd c \<noteq> Inl IOError_no_config"
  by (induction rt rd c rule: read_rows.induct) (auto simp: relative_to_def)

lemma read_backup_conf_missing: "(read_backup_conf rt cf = Inl IOError_no_config) = (cf = None)"
  by (auto simp: read_backup_conf_def read_rows_not_missing split: option.splits list.splits)

lemma make_tree_File: "make_tree a dir (File nm sz) None False [] = Some (Inl NotADirectoryError)"
  using init_File [of "[]" None "[]" a "dir @ [nm]" nm sz False] by simp

lemma new_structure_not_missing: "new_structure dir e inc exc shw fmax md df \<noteq> Some (Inl IOError_no_config)"
proof (cases e)
  case (File nm sz)
  then show ?thesis by (simp add: new_structure_def make_tree_File del: make_tree.simps)
next
  case (Dir nm es)
  then show ?thesis by (simp add: new_structure_def make_tree_places Let_def del: make_tree.simps)
qed

lemma reconcile_not_missing: "reconcile rt c bps \<noteq> Inl IOError_no_config"
proof (induction bps)
  case Nil
  then show ?case by simp
next
  case (Cons bp bps)
  have w: "walk_parts parts bc b \<noteq> Inl IOError_no_config" for parts bc b
    by (induction parts bc b rule: walk_parts.induct) (auto simp: Let_def split: option.splits)
  show ?case using Cons w
    by (auto simp: relative_to_def decision_for_def split: sum.splits option.splits)
qed

lemma from_backup_conf_missing:
  "(from_backup_conf dir e cf = Some (Inl IOError_no_config)) = (cf = None)"
proof (cases "read_backup_conf (dir @ [ename e]) cf")
  case (Inl err)
  then show ?thesis
    using read_backup_conf_missing [of "dir @ [ename e]" cf] by (auto simp: from_backup_conf_def)
next
  case (Inr c)
  then have "cf \<noteq> None" by (auto simp: read_backup_conf_def split: option.splits)
  then show ?thesis
    using Inr new_structure_not_missing [of dir e "[]" "[]" 0 "-1" "-1" True] reconcile_not_missing
    by (auto simp: from_backup_conf_def split: option.splits sum.splits)
qed

subsection \<open>The levels of the nested dict\<close>

lemma flagged_kid: "flagged c \<Longrightarrow> map_of (kids c) f = Some sub \<Longrightarrow> self_flag sub \<noteq> None \<and> flagged sub"
  by (cases c) (auto dest!: map_of_SomeD)

lemma self_flag_add_parts [simp]: "self_flag (add_parts b ps c) = self_flag c"
  by (cases ps) (auto split: option.splits)

lemma set_update_subset: "x \<in> set (AList.update k v al) \<Longrightarrow> x = (k, v) \<or> x \<in> set al"
  by (induction al) (auto split: if_splits)

lemma flagged_add_parts: "flagged c \<Longrightarrow> flagged (add_parts b ps c)"
proof (induction ps arbitrary: c)
  case Nil
  then show ?case by simp
next
  case (Cons f fs)
  obtain s ks where c: "c = Conf s ks" by (cases c)
  show ?case
  proof (cases "map_of ks f")
    case None
    have "flagged (add_parts b fs (Conf (Some b) []))" by (rule Cons.IH) simp
    then show ?thesis using None Cons.prems c
      by (auto dest!: set_update_subset)
  next
    case (Some sub)
    then have "self_flag sub \<noteq> None" "flagged sub"
      using flagged_kid [of c f sub] Cons.prems c by auto
    then have "flagged (add_parts b fs sub)" "self_flag (add_parts b fs sub) \<noteq> None"
      using Cons.IH by auto
    then show ?thesis using Some Cons.prems c
      by (auto dest!: set_update_subset)
  qed
qed

lemma level_flag_add_parts:
  "flagged c \<Longrightarrow> parts \<noteq> [] \<Longrightarrow>
   level_flag (add_parts b ps c) parts =
     (case level_flag c parts of Some v \<Rightarrow> Some v | None \<Rightarrow> if prefix parts ps then Some b else None)"
proof (induction ps arbitrary: c parts)
  case Nil
  then show ?case by (auto split: option.splits)
next
  case (Cons f fs)
  obtain g gs where parts: "parts = g # gs" using Cons.prems by (cases parts) auto
  show ?case
  proof (cases "g = f")
    case False
    then show ?thesis by (auto simp: parts update_conv' split: option.splits)
  next
    case True
    show ?thesis
    proof (cases "map_of (kids c) f")
      case None
      show ?thesis
      proof (cases "gs = []")
        case True
        then show ?thesis using None \<open>g = f\<close> by (simp add: parts update_conv')
      next
        case False
        have "level_flag (Conf (Some b) []) gs = None" using False by (cases gs) auto
        with Cons.IH [of "Conf (Some b) []" gs] False None \<open>g = f\<close> show ?thesis
          by (simp add: parts update_conv')
      qed
    next
      case (Some sub)
      then have fl: "self_flag sub \<noteq> None" "flagged sub"
        using flagged_kid [of c f sub] Cons.prems by auto
      show ?thesis
      proof (cases "gs = []")
        case True
        then show ?thesis using Some fl \<open>g = f\<close> by (auto simp: parts update_conv')
      next
        case False
        with Cons.IH [of sub gs] fl Some \<open>g = f\<close> show ?thesis
          by (simp add: parts update_conv')
      qed
    qed
  qed
qed


lemma flagged_set_root: "flagged c \<Longrightarrow> flagged (Conf s (kids c))"
  by (cases c) auto

lemma level_flag_set_root: "parts \<noteq> [] \<Longrightarrow> level_flag (Conf s (kids c)) parts = level_flag c parts"
  by (cases parts) auto

lemma read_rows_level_flag:
  "flagged c0 \<Longrightarrow> read_rows rt rd c0 = Inr c \<Longrightarrow> parts \<noteq> [] \<Longrightarrow>
   level_flag c parts =
     (case level_flag c0 parts of Some v \<Rightarrow> Some v | None \<Rightarrow> first_flag (rt @ parts) rd)"
proof (induction rt rd c0 rule: read_rows.induct)
  case (1 rt result)
  then show ?case by (auto split: option.splits)
next
  case (2 rt rd result)
  then show ?case by simp
next
  case (3 rt b p rd result)
  from "3.prems" obtain r where p: "p = rt @ r"
    by (auto simp: relative_to_def prefix_def split: if_splits)
  let ?c1 = "add_parts b r (if length r = 0 then Conf (Some b) (kids result) else result)"
  have rel: "relative_to p rt = Inr r" by (simp add: relative_to_def p)
  have f1: "flagged ?c1"
    using "3.prems"(1) flagged_set_root [of result "Some b"]
    by (cases "r = []") (simp_all add: flagged_add_parts)
  have rr: "read_rows rt rd ?c1 = Inr c" using "3.prems"(2) rel by simp
  have l1: "level_flag ?c1 parts =
      (case level_flag result parts of Some v \<Rightarrow> Some v | None \<Rightarrow> if prefix parts r then Some b else None)"
    using "3.prems"(1,3)
    by (cases "r = []") (auto simp: level_flag_add_parts level_flag_set_root flagged_set_root split: option.splits)
  from "3.IH" [OF rel f1 rr "3.prems"(3)] l1 show ?case
    by (auto simp: p split: option.splits)
qed

lemma read_rows_root_flag:
  "read_rows rt rd c0 = Inr c \<Longrightarrow>
   self_flag c = (case last_flag rt rd of Some b \<Rightarrow> Some b | None \<Rightarrow> self_flag c0)"
proof (induction rt rd c0 rule: read_rows.induct)
  case (1 rt result)
  then show ?case by simp
next
  case (2 rt rd result)
  then show ?case by simp
next
  case (3 rt b p rd result)
  from "3.prems" obtain r where p: "p = rt @ r"
    by (auto simp: relative_to_def prefix_def split: if_splits)
  have rel: "relative_to p rt = Inr r" by (simp add: relative_to_def p)
  from "3.IH" [OF rel] "3.prems" rel show ?case
    by (auto simp: p split: option.splits)
qed

subsection \<open>The examples, evaluated\<close>


subsection \<open>Paths and decisions of the places of a tree\<close>





lemma walk_decided_up:
  "pl \<in> set (walk df aps p prnt d il i e) \<Longrightarrow> pl_decided a pl \<Longrightarrow> decided a aps p e"
  and walk_children_decided_up:
  "pl \<in> set (walk_children df aps p br d count n i es) \<Longrightarrow> pl_decided a pl \<Longrightarrow>
     \<exists>e\<in>set es. decided a aps (p @ [ename e]) e"
proof (induction df aps p prnt d il i e and df aps p br d count n i es arbitrary: pl and pl
    rule: walk_walk_children.induct)
  case (1 df aps p prnt d il i nm sz)
  then show ?case by (auto simp del: closest_rule.simps)
next
  case (2 df aps p prnt d il i nm es)
  then show ?case by (auto simp del: closest_rule.simps)
next
  case (3 df aps p br d count n i)
  then show ?case by simp
next
  case (4 df aps p br d count n i e es)
  then show ?case by auto
qed









lemma final_node_simps [simp]:
  "path (final_node a pl) = pl_path pl"
  "is_dir (final_node a pl) = entry_is_dir (pl_entry pl)"
  "backup (final_node a pl) = decided a (pl_aps pl) (pl_path pl) (pl_entry pl)"
  "size_b (final_node a pl) = total_size (pl_entry pl)"
  "n_files (final_node a pl) = count_files (pl_entry pl)"
  "parent (final_node a pl) = pl_parent pl"
  "depth (final_node a pl) = pl_depth pl"
  by (simp_all add: final_node_def)


subsection \<open>What \<open>scan\<close> lists\<close>










subsection \<open>The files of a structure\<close>












subsection \<open>Reading the decisions back\<close>



















section \<open>Aggregated sizes and numbers of files\<close>

text \<open>
  C1. \<open>make_tree\<close>, called on a directory, returns, and in the store it leaves every object
  has as \<open>size\<close> the sum of the sizes of the files of its subtree and as \<open>n_files\<close> their
  number; for a file these are its own size and 1.
\<close>

theorem make_tree_aggregates:
  "entry_is_dir e \<Longrightarrow>
     (\<exists>st. make_tree a dir e None False [] = Some (Inr st) \<and>
        map (\<lambda>bp. (path bp, is_dir bp, size_b bp, n_files bp)) st =
        map (\<lambda>pl. (pl_path pl, entry_is_dir (pl_entry pl), total_size (pl_entry pl),
                    count_files (pl_entry pl))) (places (ta_dir_first a) dir e))"
  by (simp add: make_tree_places final_node_def comp_def)

theorem make_tree_aggregates_witness:
  "entry_is_dir fs_example \<and>
   (\<exists>st. make_tree args_example [''home''] fs_example None False [] = Some (Inr st) \<and>
      map (\<lambda>bp. (path bp, is_dir bp, size_b bp, n_files bp)) st =
   [([''home'', ''proj''], True, 5000027, 4),
    ([''home'', ''proj'', ''a''], True, 5000010, 2),
    ([''home'', ''proj'', ''a'', ''big.bin''], False, 5000000, 1),
    ([''home'', ''proj'', ''a'', ''small.txt''], False, 10, 1),
    ([''home'', ''proj'', ''B''], True, 0, 0),
    ([''home'', ''proj'', ''c''], True, 7, 1),
    ([''home'', ''proj'', ''c'', ''d''], True, 7, 1),
    ([''home'', ''proj'', ''c'', ''d'', ''x''], False, 7, 1),
    ([''home'', ''proj'', ''notes.txt''], False, 10, 1)])"
proof -
  have d: "entry_is_dir fs_example" by (simp add: fs_example_def)
  have t: "ta_dir_first args_example = True" by (simp add: args_example_def)
  from make_tree_aggregates [OF d, of args_example "[''home'']"] show ?thesis
    unfolding t places_example using d by blast
qed

section \<open>The name filter\<close>

text \<open>
  C2. The filter that \<open>make_namefilter\<close> builds answers include for an object whose path is
  in the include list, else exclude for one whose path is in the exclude list, else what it
  answers for the parent, else include. On a store whose parent references end, it returns
  the rule of the closest listed object among the object and its ancestors.
\<close>

theorem make_namefilter_closest:
  "make_namefilter inc exc st bp =
     (if path bp \<in> set inc then Some True
      else if path bp \<in> set exc then Some False
      else (case parent bp of
              Some p \<Rightarrow> make_namefilter inc exc st (st ! p)
            | None \<Rightarrow> Some True)) \<and>
   (chain st (parent bp) anc \<longrightarrow>
      make_namefilter inc exc st bp =
        Some (closest_rule inc exc (path bp # map (\<lambda>i. path (st ! i)) anc)))"
  unfolding make_namefilter_def
  by (rule conjI, subst func.simps, rule refl, rule impI, erule func_closest)

theorem make_namefilter_closest_witness:
  "chain store_example (parent node_example) [1, 0] \<and>
   make_namefilter [[''r'']] [[''r'', ''a'']] store_example node_example = Some False \<and>
   make_namefilter [[''r'']] [[''r'', ''a'']] store_example (store_example ! 1) = Some False"
proof -
  have c: "chain store_example (parent node_example) [1, 0]"
    by (simp add: store_example_def node_example_def)
  have c1: "chain store_example (parent (store_example ! 1)) [0]"
    by (simp add: store_example_def)
  from make_namefilter_closest [of "[[''r'']]" "[[''r'', ''a'']]" store_example node_example "[1, 0]"]
    make_namefilter_closest [of "[[''r'']]" "[[''r'', ''a'']]" store_example "store_example ! 1" "[0]"]
    c c1
  show ?thesis
    by (simp add: store_example_def node_example_def)
qed

section \<open>Decisions of directories\<close>




section \<open>Writing the decisions and reading them back\<close>




section \<open>A missing level of the stored decisions\<close>

text \<open>
  C5 says that an object whose path has a part that the stored dict lacks gets the
  decision of its nearest ancestor in the dict. The loop of \<open>from_backup_conf\<close> goes on
  with the next part at the level where it stopped. Here \<open>build\<close> with \<open>-e b\<close> writes a line
  for the root (1) and for the excluded file \<open>b\<close> (0); the small directory \<open>x\<close> and its file
  \<open>x/b\<close> get no line. On reading, \<open>x/b\<close> finds no \<open>x\<close>, stays at the root and finds \<open>b\<close>
  there: it gets the 0 of the file \<open>b\<close>, while its nearest stored ancestor, the root, has 1.
\<close>

theorem from_backup_conf_skips_level:
  "map_option (map_sum id make_backup_conf)
     (new_structure [''h''] fs_drift [] [[''h'', ''r'', ''b'']] 1000000 (-1) (-1) True)
   = Some (Inr (None, [Header, Row True [''h'', ''r''], Row False [''h'', ''r'', ''b'']])) \<and>
   read_backup_conf [''h'', ''r''] (Some [Header, Row True [''h'', ''r''], Row False [''h'', ''r'', ''b'']])
     = Inr (Conf (Some True) [(''b'', Conf (Some False) [])]) \<and>
   map_option (map_sum id (\<lambda>s. map (\<lambda>bp. (path bp, backup bp)) (backuppaths s)))
     (from_backup_conf [''h''] fs_drift (Some [Header, Row True [''h'', ''r''], Row False [''h'', ''r'', ''b'']]))
   = Some (Inr [([''h'', ''r''], True), ([''h'', ''r'', ''x''], True),
                ([''h'', ''r'', ''x'', ''b''], False), ([''h'', ''r'', ''b''], False)])"
  by code_simp

section \<open>The size filter\<close>



section \<open>The display cap\<close>




section \<open>\<open>scan\<close> leaves the objects as they are\<close>

text \<open>
  C8. Whatever its arguments, \<open>scan\<close> leaves the structure as it found it: the backup
  flag, size, number of files, depth, \<open>is_last\<close> and path of every object are the same
  after the call as before.
\<close>

theorem scan_frame:
  "snd (scan sizeannotate display ansi_highlight s) = s \<and>
   map (\<lambda>bp. (backup bp, size_b bp, n_files bp, depth bp, is_last bp, path bp))
     (backuppaths (snd (scan sizeannotate display ansi_highlight s))) =
   map (\<lambda>bp. (backup bp, size_b bp, n_files bp, depth bp, is_last bp, path bp)) (backuppaths s)"
  by (simp add: scan_def scan_loop_frame)

theorem scan_frame_witness:
  "scan 100000000 True True structure_small =
     (Inr [\<lparr>sr_path = [''h'', ''r''], sr_size = 10, sr_backup = True\<rparr>], structure_small)"
proof -
  have "fst (scan 100000000 True True structure_small) =
      Inr [\<lparr>sr_path = [''h'', ''r''], sr_size = 10, sr_backup = True\<rparr>]"
    by (simp add: scan_def structure_small_def skipped_def listed_def explicit_def max_display_def)
  with scan_frame [of 100000000 True True structure_small] show ?thesis
    by (simp add: prod_eq_iff)
qed

section \<open>A missing configuration file\<close>

text \<open>
  C9. \<open>_read_backup_conf\<close>, and with it \<open>from_backup_conf\<close> and \<open>cmd_zip\<close>, raises the
  error that asks for \<open>backupy build\<close> exactly when there is no configuration file; without
  the file none of them returns a result.
\<close>

theorem config_missing_error:
  "(read_backup_conf rt cf = Inl IOError_no_config \<longleftrightarrow> cf = None) \<and>
   (from_backup_conf dir e cf = Some (Inl IOError_no_config) \<longleftrightarrow> cf = None) \<and>
   (cmd_zip dir e cf = Some (Inl IOError_no_config) \<longleftrightarrow> cf = None)"
  using from_backup_conf_missing [of dir e cf]
  by (auto simp: read_backup_conf_missing cmd_zip_def split: option.splits sum.splits)

theorem config_missing_error_witness:
  "read_backup_conf [''home'', ''proj''] None = Inl IOError_no_config \<and>
   from_backup_conf [''home''] fs_example None = Some (Inl IOError_no_config) \<and>
   cmd_zip [''home''] fs_example None = Some (Inl IOError_no_config) \<and>
   read_backup_conf [''home'', ''proj''] (Some [Header]) \<noteq> Inl IOError_no_config"
  using config_missing_error [of "[''home'', ''proj'']" None "[''home'']" fs_example]
    config_missing_error [of "[''home'', ''proj'']" "Some [Header]" "[''home'']" fs_example]
  by simp

section \<open>Which line fixes the flag of a level\<close>

text \<open>
  C10, as stated, fails at the root: of two lines for the root itself the later one fixes
  the flag of the top level.
\<close>

theorem read_backup_conf_root_rows:
  "read_backup_conf [''r''] (Some [Header, Row True [''r''], Row False [''r'']]) = Inr (Conf (Some False) [])"
  by (simp add: read_backup_conf_def relative_to_def)

text \<open>
  C10, amended. After \<open>_read_backup_conf\<close>, the flag of every level below the root is the
  flag of the first line whose path is at or below that level, so no later line overwrites
  it and a level first made by a line for a descendant keeps that line's flag; the flag of
  the root is the flag of the last line for the root.
\<close>

theorem read_backup_conf_first_row:
  "read_backup_conf rt (Some (h # rd)) = Inr c \<Longrightarrow>
   (parts \<noteq> [] \<longrightarrow> level_flag c parts = first_flag (rt @ parts) rd) \<and>
   level_flag c [] = last_flag rt rd"
proof -
  assume r: "read_backup_conf rt (Some (h # rd)) = Inr c"
  then have rr: "read_rows rt rd (Conf None []) = Inr c" by (simp add: read_backup_conf_def)
  have "level_flag (Conf None []) parts = None" by (cases parts) auto
  with read_rows_level_flag [OF _ rr, of parts] read_rows_root_flag [OF rr] show ?thesis
    by (auto split: option.splits)
qed

theorem read_backup_conf_first_row_witness:
  "read_backup_conf [''r''] (Some [Header, Row True [''r'', ''a'', ''b''], Row False [''r'', ''a''], Row False [''r''], Row True [''r'']])
     = Inr (Conf (Some True) [(''a'', Conf (Some True) [(''b'', Conf (Some True) [])])]) \<and>
   level_flag (Conf (Some True) [(''a'', Conf (Some True) [(''b'', Conf (Some True) [])])]) [''a''] = Some True \<and>
   level_flag (Conf (Some True) [(''a'', Conf (Some True) [(''b'', Conf (Some True) [])])]) [] = Some True"
proof -
  have r: "read_backup_conf [''r''] (Some (Header # [Row True [''r'', ''a'', ''b''], Row False [''r'', ''a''], Row False [''r''], Row True [''r'']]))
     = Inr (Conf (Some True) [(''a'', Conf (Some True) [(''b'', Conf (Some True) [])])])"
    by (simp add: read_backup_conf_def relative_to_def)
  from read_backup_conf_first_row [OF r, of "[''a'']"] r show ?thesis by simp
qed

end
